theory Spec2Isabelle
  imports Complex_Main "HOL-Library.Multiset"
begin

section \<open>Values exchanged with the provider\<close>

text \<open>
  The responses of the image provider and the model configuration files are JSON
  documents. An object is kept as its list of properties and read with \<open>map_of\<close>.
  A JavaScript number is kept as the rational it denotes: every finite double is one;
  \<open>NaN\<close> and the infinities are left out.
\<close>

datatype json =
    JNull
  | JBool bool
  | JNum rat
  | JStr string
  | JArr "json list"
  | JObj "(string \<times> json) list"

text \<open>A thrown JavaScript error, identified by its \<open>message\<close>.\<close>

datatype js_error = Error (message: string)

text \<open>JavaScript truthiness of a value; an absent property (\<open>undefined\<close>) is falsy.\<close>

fun truthy :: "json \<Rightarrow> bool" where
  "truthy JNull = False"
| "truthy (JBool b) = b"
| "truthy (JNum n) = (n \<noteq> 0)"
| "truthy (JStr s) = (s \<noteq> [])"
| "truthy (JArr xs) = True"
| "truthy (JObj kvs) = True"

fun pick :: "json option \<Rightarrow> json option" where
  "pick None = None"
| "pick (Some v) = (if truthy v then Some v else None)"

text \<open>
  Reading a property \<open>v.k\<close>. Reading from \<open>null\<close> throws a TypeError; an object
  answers from its properties; strings, numbers, booleans and arrays have none of the
  properties read by this program (\<open>images\<close>, \<open>image\<close>, \<open>data\<close>, \<open>output\<close>,
  \<open>url\<close>, \<open>image_url\<close>, and the fields of a model configuration), so the read gives
  \<open>undefined\<close>.
\<close>

fun get_prop :: "json \<Rightarrow> string \<Rightarrow> js_error + json option" where
  "get_prop JNull k = Inl (Error (''Cannot read properties of null (reading '' @ k @ '')''))"
| "get_prop (JObj kvs) k = Inr (map_of kvs k)"
| "get_prop v k = Inr None"

fun is_string :: "json \<Rightarrow> bool" where
  "is_string (JStr s) = True"
| "is_string v = False"

section \<open>JavaScript numbers\<close>

text \<open>
  \<open>js_trunc\<close> is the conversion of a number to a whole number that \<open>slice\<close> applies to
  its arguments: the fraction is dropped.
\<close>

definition js_trunc :: "rat \<Rightarrow> int" where
  "js_trunc x = (if 0 \<le> x then \<lfloor>x\<rfloor> else \<lceil>x\<rceil>)"

text \<open>
  The sum and the product of two doubles are the exact results rounded to the nearest
  double, ties to the even significand. \<open>round_double\<close> rounds a rational to 53
  significant bits; the range of the exponent is not bounded, so overflow and subnormal
  numbers are outside the model. \<open>binary_exponent x\<close> is the \<open>e\<close> with
  \<open>2^e \<le> x < 2^(e+1)\<close>, for a positive \<open>x\<close>.
\<close>

function bit_length :: "int \<Rightarrow> int" where
  "bit_length n = (if n \<le> 0 then 0 else 1 + bit_length (n div 2))"
  by pat_completeness auto
termination
  by (relation "measure nat") auto

declare bit_length.simps [simp del]

definition binary_exponent :: "rat \<Rightarrow> int" where
  "binary_exponent x =
     (if 1 \<le> x then bit_length \<lfloor>x\<rfloor> - 1
      else - bit_length (\<lceil>1 / x\<rceil> - 1))"

definition pow2 :: "int \<Rightarrow> rat" where
  "pow2 k = (if 0 \<le> k then 2 ^ nat k else 1 / 2 ^ nat (- k))"

definition round_even :: "rat \<Rightarrow> int" where
  "round_even x =
     (let f = \<lfloor>x\<rfloor>; d = x - of_int f
      in if d < 1 / 2 then f else if 1 / 2 < d then f + 1 else if even f then f else f + 1)"

definition round_double :: "rat \<Rightarrow> rat" where
  "round_double x =
     (if x = 0 then 0
      else (let q = pow2 (binary_exponent \<bar>x\<bar> - 52)
            in of_int (round_even (x / q)) * q))"

definition js_add :: "rat \<Rightarrow> rat \<Rightarrow> rat" where
  "js_add x y = round_double (x + y)"

definition js_mul :: "rat \<Rightarrow> rat \<Rightarrow> rat" where
  "js_mul x y = round_double (x * y)"


section \<open>Response normalisation: \<open>extractImageUrls\<close>\<close>

text \<open>
  \<open>forEach_push f xs acc\<close> runs a \<open>forEach\<close> whose callback pushes the values \<open>f x\<close>
  onto the array \<open>acc\<close>; a throwing callback ends the loop with the error.
\<close>

fun forEach_push :: "(json \<Rightarrow> js_error + json list) \<Rightarrow> json list \<Rightarrow> json list
    \<Rightarrow> js_error + json list" where
  "forEach_push f [] acc = Inr acc"
| "forEach_push f (x # xs) acc =
     (case f x of Inl e \<Rightarrow> Inl e | Inr ys \<Rightarrow> forEach_push f xs (acc @ ys))"

text \<open>The callback of the \<open>result.images\<close> branch: \<open>url\<close>, else \<open>image_url\<close>, else a string entry.\<close>

definition push_image :: "json \<Rightarrow> js_error + json list" where
  "push_image img =
     (case get_prop img ''url'' of
        Inl e \<Rightarrow> Inl e
      | Inr u \<Rightarrow>
          (case pick u of
             Some x \<Rightarrow> Inr [x]
           | None \<Rightarrow>
               (case get_prop img ''image_url'' of
                  Inl e \<Rightarrow> Inl e
                | Inr w \<Rightarrow>
                    (case pick w of
                       Some y \<Rightarrow> Inr [y]
                     | None \<Rightarrow> if is_string img then Inr [img] else Inr []))))"

text \<open>The callback of the \<open>data.images\<close> and \<open>output.images\<close> branches: \<open>url\<close> only.\<close>

definition push_url :: "json \<Rightarrow> js_error + json list" where
  "push_url img =
     (case get_prop img ''url'' of
        Inl e \<Rightarrow> Inl e
      | Inr u \<Rightarrow> (case pick u of Some x \<Rightarrow> Inr [x] | None \<Rightarrow> Inr []))"

text \<open>
  \<open>v.images.forEach(...)\<close> for a truthy \<open>v.images\<close>: an array is iterated, any other
  truthy value has no \<open>forEach\<close> method and the call throws.
\<close>

fun forEach_images :: "json \<Rightarrow> js_error + json list" where
  "forEach_images (JArr xs) = forEach_push push_url xs []"
| "forEach_images v = Inl (Error ''forEach is not a function'')"

text \<open>The wrapper test \<open>result.w && result.w.images\<close>: the truthy \<open>images\<close> value, if any.\<close>

definition wrapped_images :: "json \<Rightarrow> string \<Rightarrow> json option" where
  "wrapped_images result w =
     (case get_prop result w of
        Inl e \<Rightarrow> None
      | Inr d \<Rightarrow>
          (case pick d of
             None \<Rightarrow> None
           | Some dv \<Rightarrow> (case get_prop dv ''images'' of Inl e \<Rightarrow> None | Inr i \<Rightarrow> pick i)))"

text \<open>The test \<open>result.image && result.image.url\<close>.\<close>

definition single_image_url :: "json \<Rightarrow> json option" where
  "single_image_url result =
     (case get_prop result ''image'' of
        Inl e \<Rightarrow> None
      | Inr d \<Rightarrow>
          (case pick d of
             None \<Rightarrow> None
           | Some dv \<Rightarrow> (case get_prop dv ''url'' of Inl e \<Rightarrow> None | Inr u \<Rightarrow> pick u)))"

definition extractImageUrls :: "json \<Rightarrow> js_error + json list" where
  "extractImageUrls result =
     (case get_prop result ''images'' of
        Inl e \<Rightarrow> Inl e
      | Inr (Some (JArr xs)) \<Rightarrow> forEach_push push_image xs []
      | Inr other \<Rightarrow>
          (case single_image_url result of
             Some u \<Rightarrow> Inr [u]
           | None \<Rightarrow>
               (case wrapped_images result ''data'' of
                  Some v \<Rightarrow> forEach_images v
                | None \<Rightarrow>
                    (case wrapped_images result ''output'' of
                       Some v \<Rightarrow> forEach_images v
                     | None \<Rightarrow> Inr []))))"

section \<open>One generation request: \<open>generateSingleImage\<close>\<close>

text \<open>
  A task object. The orchestrator reads \<open>model\<close>, \<open>prompt\<close> and \<open>parameters\<close>, the cost
  breakdown reads \<open>model\<close> and \<open>imageCount\<close> (a number, \<open>None\<close> when the property is absent).
\<close>

record task =
  model :: string
  prompt :: string
  parameters :: "(string \<times> json) list"
  imageCount :: "rat option"

text \<open>
  The world outside the program. \<open>fal_subscribe w call key m input\<close> is the settlement
  of the provider request issued for the task at position \<open>call\<close>: the promise is
  rejected with an error or resolved with a response. \<open>ensureDir\<close> creates a directory
  (or fails), \<open>fetch_and_write\<close> downloads one image into a directory and answers the
  number of bytes written (or fails).
\<close>

datatype provider_reply = Rejected js_error | Resolved json

record world =
  fal_subscribe :: "nat \<Rightarrow> string \<Rightarrow> string \<Rightarrow> (string \<times> json) list \<Rightarrow> provider_reply"
  ensureDir :: "string \<Rightarrow> js_error option"
  fetch_and_write :: "string \<Rightarrow> json \<Rightarrow> js_error + nat"

record saved_file =
  url :: json
  seq :: nat
  bytes :: nat

text \<open>
  The two objects \<open>generateSingleImage\<close> returns, \<open>{success: true, ...}\<close> and
  \<open>{success: false, ...}\<close>. Clock readings (\<open>duration\<close>, \<open>timestamp\<close>) and the
  \<open>request_id\<close> and \<open>seed\<close> copied out of the raw response are left out.
\<close>

datatype generation_result =
    Success (res_model: string) (res_prompt: string) (images: "json list")
      (res_parameters: "(string \<times> json) list") (res_generationId: "string option")
      (raw_result: json) (savedFiles: "saved_file list option")
  | Failure (res_model: string) (res_prompt: string) (error: string)
      (res_generationId: "string option")


text \<open>
  The download loop of \<open>saveImagesToDisk\<close>: a failed download is logged and skipped,
  the others are recorded with their 1-based position.
\<close>

fun save_loop :: "world \<Rightarrow> string \<Rightarrow> json list \<Rightarrow> nat \<Rightarrow> saved_file list \<Rightarrow> saved_file list" where
  "save_loop w dir [] i saved = saved"
| "save_loop w dir (imageUrl # rest) i saved =
     (case fetch_and_write w dir imageUrl of
        Inl e \<Rightarrow> save_loop w dir rest (i + 1) saved
      | Inr n \<Rightarrow>
          save_loop w dir rest (i + 1)
            (saved @ [\<lparr>url = imageUrl, seq = i + 1, bytes = n\<rparr>]))"

definition saveImagesToDisk :: "world \<Rightarrow> json list \<Rightarrow> string \<Rightarrow> js_error + saved_file list" where
  "saveImagesToDisk w imageUrls dir =
     (case ensureDir w dir of
        Some e \<Rightarrow> Inl e
      | None \<Rightarrow> Inr (save_loop w dir imageUrls 0 []))"

text \<open>
  \<open>generateSingleImage w call t apiKey dir gid\<close>: the request input is
  \<open>{prompt, ...parameters}\<close>, so a \<open>prompt\<close> among the parameters wins; everything from
  the provider call on is inside the \<open>try\<close>, whose \<open>catch\<close> turns the error into the
  failure object. \<open>dir\<close> is the output directory (\<open>None\<close> for \<open>null\<close>; the empty
  string is falsy as well).
\<close>

definition generateSingleImage ::
  "world \<Rightarrow> nat \<Rightarrow> task \<Rightarrow> string \<Rightarrow> string option \<Rightarrow> string option \<Rightarrow> generation_result" where
  "generateSingleImage w call t apiKey dir gid =
     (case fal_subscribe w call apiKey (model t) (parameters t @ [(''prompt'', JStr (prompt t))]) of
        Rejected e \<Rightarrow> Failure (model t) (prompt t) (message e) gid
      | Resolved response \<Rightarrow>
          (case extractImageUrls response of
             Inl e \<Rightarrow> Failure (model t) (prompt t) (message e) gid
           | Inr imgs \<Rightarrow>
               if imgs = [] then Failure (model t) (prompt t) ''No images generated'' gid
               else
                 (case dir of
                    None \<Rightarrow> Success (model t) (prompt t) imgs (parameters t) gid response None
                  | Some d \<Rightarrow>
                      if d = [] then Success (model t) (prompt t) imgs (parameters t) gid response None
                      else
                        (case saveImagesToDisk w imgs d of
                           Inl e \<Rightarrow> Failure (model t) (prompt t) (message e) gid
                         | Inr files \<Rightarrow>
                             Success (model t) (prompt t) imgs (parameters t) gid response (Some files)))))"

section \<open>The batch orchestrator: \<open>generateBatch\<close>\<close>

text \<open>
  The options object with its defaults. \<open>onProgress\<close> records whether a callback was
  supplied; its invocations are logged in the trace. \<open>batchSize\<close> is any number: nothing
  checks that it is whole or positive.
\<close>

record options =
  outputDir :: "string option"
  generationId :: "string option"
  batchSize :: rat
  onProgress :: bool

definition default_options :: options where
  "default_options = \<lparr>outputDir = None, generationId = None, batchSize = 1, onProgress = False\<rparr>"

record progress =
  completed :: rat
  total :: nat
  currentTask :: task
  result :: generation_result

text \<open>
  What can be observed of a run: the request of the task at a position is issued, the
  promise of the task at a position settles, the progress callback is called.
\<close>

datatype event = Dispatch nat | Settle nat | OnProgress progress

text \<open>
  \<open>Array.prototype.slice\<close>: the arguments are converted to whole numbers, negative
  indices count from the end.
\<close>

definition rel_index :: "nat \<Rightarrow> int \<Rightarrow> nat" where
  "rel_index n k = (if k < 0 then nat (max (int n + k) 0) else nat (min k (int n)))"

definition slice :: "'a list \<Rightarrow> rat \<Rightarrow> rat \<Rightarrow> 'a list" where
  "slice xs s e =
     (let k = rel_index (length xs) (js_trunc s); final = rel_index (length xs) (js_trunc e)
      in take (final - k) (drop k xs))"

text \<open>
  \<open>model.replace(/[^a-zA-Z0-9]/g, '_')\<close> and the directory of one task; \<open>path.join\<close> is
  taken as joining the two parts with a slash.
\<close>

definition is_alnum :: "char \<Rightarrow> bool" where
  "is_alnum c =
     (let n = (of_char c :: nat)
      in (48 \<le> n \<and> n \<le> 57) \<or> (65 \<le> n \<and> n \<le> 90) \<or> (97 \<le> n \<and> n \<le> 122))"

definition sanitize :: "string \<Rightarrow> string" where
  "sanitize s = map (\<lambda>c. if is_alnum c then c else CHR ''_'') s"

definition taskOutputDir :: "string option \<Rightarrow> task \<Rightarrow> string option" where
  "taskOutputDir dir t =
     (case dir of
        None \<Rightarrow> None
      | Some d \<Rightarrow> if d = [] then None else Some (d @ ''/'' @ sanitize (model t)))"

definition run_task :: "world \<Rightarrow> options \<Rightarrow> string \<Rightarrow> nat \<Rightarrow> task \<Rightarrow> generation_result" where
  "run_task w opts apiKey pos t =
     generateSingleImage w pos t apiKey (taskOutputDir (outputDir opts) t) (generationId opts)"

text \<open>
  One iteration of the loop, for the loop variable \<open>i\<close>, a number that \<open>slice\<close>
  converts and \<open>completed\<close> reports as it is. \<open>batch.map\<close> starts every task
  of the batch, each running up to its provider request; the promises then settle in the
  order of their latencies \<open>lat\<close> (ties in batch order), each continuation calling
  \<open>onProgress\<close>; \<open>Promise.all\<close> answers the results in batch order.
\<close>

definition settle_events :: "options \<Rightarrow> nat \<Rightarrow> rat \<Rightarrow> nat \<Rightarrow> nat \<times> task \<times> generation_result \<Rightarrow> event list" where
  "settle_events opts n i k0 job =
     (case job of (batchIndex, t, r) \<Rightarrow>
        Settle (k0 + batchIndex) #
        (if onProgress opts
         then [OnProgress \<lparr>completed = i + of_nat batchIndex + 1, total = n, currentTask = t, result = r\<rparr>]
         else []))"

definition window ::
  "world \<Rightarrow> (nat \<Rightarrow> nat) \<Rightarrow> options \<Rightarrow> string \<Rightarrow> task list \<Rightarrow> rat
     \<Rightarrow> generation_result list \<times> event list" where
  "window w lat opts apiKey tasks i =
     (let batch = slice tasks i (i + batchSize opts);
          k0 = rel_index (length tasks) (js_trunc i);
          jobs = map (\<lambda>(batchIndex, t). (batchIndex, t, run_task w opts apiKey (k0 + batchIndex) t))
                   (enumerate 0 batch);
          settling = sort_key (\<lambda>(batchIndex, t, r). lat (k0 + batchIndex)) jobs
      in (map (\<lambda>(batchIndex, t, r). r) jobs,
          map (\<lambda>(batchIndex, t, r). Dispatch (k0 + batchIndex)) jobs @
          concat (map (settle_events opts (length tasks) i k0) settling)))"

text \<open>
  The \<open>for\<close> loop. Nothing in it bounds the number of iterations when \<open>batchSize\<close> is
  not positive, so the loop is a partial function: \<open>None\<close> is a run that never returns.
  The loop variable is advanced by the exact sum, which is what the addition of doubles
  gives for whole numbers and for halves in the range of array lengths.
\<close>

partial_function (option) batch_loop ::
  "world \<Rightarrow> (nat \<Rightarrow> nat) \<Rightarrow> options \<Rightarrow> string \<Rightarrow> task list \<Rightarrow> rat
     \<Rightarrow> generation_result list \<Rightarrow> event list \<Rightarrow> (generation_result list \<times> event list) option" where
  "batch_loop w lat opts apiKey tasks i results trace =
     (if i < of_nat (length tasks)
      then (case window w lat opts apiKey tasks i of
              (batchResults, evs) \<Rightarrow>
                batch_loop w lat opts apiKey tasks (i + batchSize opts)
                  (results @ batchResults) (trace @ evs))
      else Some (results, trace))"

definition generateBatch ::
  "world \<Rightarrow> (nat \<Rightarrow> nat) \<Rightarrow> task list \<Rightarrow> string \<Rightarrow> options
     \<Rightarrow> (generation_result list \<times> event list) option" where
  "generateBatch w lat tasks apiKey opts = batch_loop w lat opts apiKey tasks 0 [] []"

text \<open>
  Reading a trace: the positions dispatched, the positions settled, and the tasks in
  flight (dispatched and not yet settled); the values \<open>completed\<close> handed to the
  progress callback, in the order of the calls.
\<close>

fun dispatched :: "event list \<Rightarrow> nat list" where
  "dispatched [] = []"
| "dispatched (Dispatch k # es) = k # dispatched es"
| "dispatched (e # es) = dispatched es"

fun settled :: "event list \<Rightarrow> nat list" where
  "settled [] = []"
| "settled (Settle k # es) = k # settled es"
| "settled (e # es) = settled es"

definition running :: "event list \<Rightarrow> nat list" where
  "running es = filter (\<lambda>k. k \<notin> set (settled es)) (dispatched es)"

fun progress_calls :: "event list \<Rightarrow> progress list" where
  "progress_calls [] = []"
| "progress_calls (OnProgress p # es) = p # progress_calls es"
| "progress_calls (e # es) = progress_calls es"

text \<open>
  For a whole batch size \<open>b\<close>: the first positions of the consecutive windows of
  \<open>b\<close> tasks that cover the positions \<open>i, ..., n - 1\<close>; the window that starts at
  \<open>k\<close> holds the positions \<open>k, ..., min (k + b) n - 1\<close>.
\<close>

function window_starts :: "nat \<Rightarrow> nat \<Rightarrow> nat \<Rightarrow> nat list" where
  "window_starts b i n = (if 0 < b \<and> i < n then i # window_starts b (i + b) n else [])"
  by pat_completeness auto
termination
  by (relation "measure (\<lambda>(b, i, n). n - i)") auto

definition window_positions :: "nat \<Rightarrow> nat \<Rightarrow> nat \<Rightarrow> nat list" where
  "window_positions b n k = [k..<min (k + b) n]"

declare window_starts.simps [simp del]

text \<open>
  The jobs of the window that starts at position \<open>k\<close> (batch index, task, result), and
  the events of their settlements in the order of the latencies.
\<close>

definition jobs_of :: "world \<Rightarrow> options \<Rightarrow> string \<Rightarrow> task list \<Rightarrow> nat
    \<Rightarrow> (nat \<times> task \<times> generation_result) list" where
  "jobs_of w opts apiKey tasks k =
     map (\<lambda>p. (p - k, tasks ! p, run_task w opts apiKey p (tasks ! p)))
       (window_positions (nat \<lfloor>batchSize opts\<rfloor>) (length tasks) k)"

definition settlements :: "world \<Rightarrow> (nat \<Rightarrow> nat) \<Rightarrow> options \<Rightarrow> string \<Rightarrow> task list \<Rightarrow> nat
    \<Rightarrow> event list" where
  "settlements w lat opts apiKey tasks k =
     concat (map (settle_events opts (length tasks) (of_nat k) k)
       (sort_key (\<lambda>(j, t, r). lat (k + j)) (jobs_of w opts apiKey tasks k)))"

section \<open>Cost estimation and the spending gate\<close>

text \<open>A loaded model configuration, as far as cost estimation reads it.\<close>

record model_config =
  model_id :: string
  name :: string
  costPerImage :: "rat option"

record breakdown_entry =
  modelName :: string
  entry_imageCount :: rat
  entry_costPerImage :: rat
  entry_totalCost :: rat

record cost_estimate =
  totalCost :: rat
  breakdown :: "(string \<times> breakdown_entry) list"
  currency :: string

text \<open>
  \<open>task.imageCount || 1\<close>: an absent count and the count 0 both give 1; any other
  number, a negative one or a fraction too, is taken as it is.
\<close>

definition image_count :: "task \<Rightarrow> rat" where
  "image_count t = (case imageCount t of None \<Rightarrow> 1 | Some n \<Rightarrow> if n = 0 then 1 else n)"

text \<open>
  The breakdown is a plain object: reading \<open>breakdown[key]\<close> for one of these keys finds
  the property the object inherits, which is truthy, so no entry is created and the two
  \<open>+=\<close> write to the inherited value, not to the breakdown.
\<close>

definition object_prototype_keys :: "string list" where
  "object_prototype_keys =
     [''constructor'', ''__defineGetter__'', ''__defineSetter__'', ''hasOwnProperty'',
      ''__lookupGetter__'', ''__lookupSetter__'', ''isPrototypeOf'', ''propertyIsEnumerable'',
      ''toString'', ''valueOf'', ''__proto__'', ''toLocaleString'']"

text \<open>
  The body of the \<open>forEach\<close> of \<open>calculateCost\<close>, on the running total and the breakdown
  object (its own entries, listed in order of creation). A task is counted only when its model
  is found and has a truthy \<open>costPerImage\<close>; any other task changes nothing. The
  products and the sums are those of doubles.
\<close>

definition add_to_entry :: "string \<Rightarrow> rat \<Rightarrow> rat \<Rightarrow> (string \<times> breakdown_entry) list
    \<Rightarrow> (string \<times> breakdown_entry) list" where
  "add_to_entry key n cost bd =
     map (\<lambda>(k, e). if k = key
            then (k, e\<lparr>entry_imageCount := js_add (entry_imageCount e) n,
                       entry_totalCost := js_add (entry_totalCost e) cost\<rparr>)
            else (k, e)) bd"

definition cost_step :: "model_config list \<Rightarrow> task \<Rightarrow> rat \<times> (string \<times> breakdown_entry) list
    \<Rightarrow> rat \<times> (string \<times> breakdown_entry) list" where
  "cost_step models t st =
     (case find (\<lambda>m. model_id m = model t) models of
        None \<Rightarrow> st
      | Some m \<Rightarrow>
          (case costPerImage m of
             None \<Rightarrow> st
           | Some c \<Rightarrow>
               if c = 0 then st
               else
                 (let cost = js_mul c (image_count t)
                  in if model t \<in> set object_prototype_keys
                     then (js_add (fst st) cost, snd st)
                     else
                       (let bd = (if map_of (snd st) (model t) = None
                                  then snd st @
                                       [(model t, \<lparr>modelName = name m, entry_imageCount = 0,
                                                    entry_costPerImage = c, entry_totalCost = 0\<rparr>)]
                                  else snd st)
                        in (js_add (fst st) cost,
                            add_to_entry (model t) (image_count t) cost bd)))))"

definition calculateCost :: "task list \<Rightarrow> model_config list \<Rightarrow> cost_estimate" where
  "calculateCost tasks models =
     (case fold (cost_step models) tasks (0, []) of
        (total_cost, bd) \<Rightarrow> \<lparr>totalCost = total_cost, breakdown = bd, currency = ''USD''\<rparr>)"

text \<open>
  The protocol server's estimate for one request: \<open>models\<close> is what \<open>loadModels\<close>
  answered, \<open>numImages\<close> the number of images asked for; the literal \<open>0.05\<close> is the
  double nearest to 5/100.
\<close>

definition calculateGenerationCost :: "model_config list \<Rightarrow> string \<Rightarrow> rat \<Rightarrow> rat" where
  "calculateGenerationCost models m numImages =
     (case find (\<lambda>mc. model_id mc = m) models of
        None \<Rightarrow> js_mul (round_double (5 / 100)) numImages
      | Some modelConfig \<Rightarrow>
          (case costPerImage modelConfig of
             None \<Rightarrow> js_mul (round_double (5 / 100)) numImages
           | Some c \<Rightarrow>
               if c = 0 then js_mul (round_double (5 / 100)) numImages
               else js_mul c numImages))"

definition SPENDING_LIMIT :: rat where
  "SPENDING_LIMIT = 5"

definition requiresSpendingConfirmation :: "rat \<Rightarrow> bool" where
  "requiresSpendingConfirmation estimatedCost = (estimatedCost > SPENDING_LIMIT)"

text \<open>
  The payload of the error thrown by the \<open>batch_generate\<close> handler, and the check that
  throws it: \<open>Some\<close> is the thrown signal, \<open>None\<close> lets the handler go on to
  \<open>generateBatch\<close>. The formatted \<open>message\<close> of the payload is left out; the flag
  \<open>confirm_spending\<close> is a boolean.
\<close>

record spending_confirmation =
  signal_type :: string
  estimated_cost :: rat
  spending_limit :: rat
  batch_tasks :: nat
  confirmation_needed :: bool

definition check_spending :: "rat \<Rightarrow> nat \<Rightarrow> bool \<Rightarrow> spending_confirmation option" where
  "check_spending totalEstimatedCost ntasks confirm_spending =
     (if requiresSpendingConfirmation totalEstimatedCost \<and> \<not> confirm_spending
      then Some \<lparr>signal_type = ''SPENDING_CONFIRMATION_REQUIRED'',
                 estimated_cost = totalEstimatedCost,
                 spending_limit = SPENDING_LIMIT,
                 batch_tasks = ntasks,
                 confirmation_needed = True\<rparr>
      else None)"

section \<open>The normalisation as the specification words it\<close>






section \<open>Validation of a model configuration: \<open>validateModelConfig\<close>\<close>

record validation =
  valid :: bool
  errors :: "string list"
  warnings :: "string list"

text \<open>
  The relational operators of JavaScript on two numbers are the comparisons of the
  numbers; on other operands they coerce, and the outcome of that coercion is taken as
  a parameter of the model.
\<close>

record js_relops =
  lt_coerced :: "json \<Rightarrow> json \<Rightarrow> bool"
  ge_coerced :: "json \<Rightarrow> json \<Rightarrow> bool"

fun js_lt :: "js_relops \<Rightarrow> json \<Rightarrow> json \<Rightarrow> bool" where
  "js_lt ops (JNum x) (JNum y) = (x < y)"
| "js_lt ops a b = lt_coerced ops a b"

fun js_ge :: "js_relops \<Rightarrow> json \<Rightarrow> json \<Rightarrow> bool" where
  "js_ge ops (JNum x) (JNum y) = (x \<ge> y)"
| "js_ge ops a b = ge_coerced ops a b"

fun is_number :: "json \<Rightarrow> bool" where
  "is_number (JNum x) = True"
| "is_number v = False"

text \<open>A property of a value known not to be \<open>null\<close>; \<open>None\<close> is \<open>undefined\<close>.\<close>

definition prop_of :: "json \<Rightarrow> string \<Rightarrow> json option" where
  "prop_of v k = (case get_prop v k of Inl e \<Rightarrow> None | Inr x \<Rightarrow> x)"

text \<open>Decimal numerals, for the keys that \<open>Object.entries\<close> gives the elements of an array.\<close>

function show_nat :: "nat \<Rightarrow> string" where
  "show_nat n =
     (if n < 10 then [char_of (48 + n)]
      else show_nat (n div 10) @ [char_of (48 + n mod 10)])"
  by pat_completeness auto
termination
  by (relation "measure (\<lambda>n. n)") auto

declare show_nat.simps [simp del]

fun entries :: "json \<Rightarrow> (string \<times> json) list" where
  "entries (JObj kvs) = kvs"
| "entries (JArr xs) = zip (map show_nat [0..<length xs]) xs"
| "entries (JStr s) = zip (map show_nat [0..<length s]) (map (\<lambda>c. JStr [c]) s)"
| "entries v = []"

text \<open>\<open>modelConfig.id && !modelConfig.id.includes('/')\<close>: strings and arrays have \<open>includes\<close>.\<close>

definition id_warnings :: "json option \<Rightarrow> js_error + string list" where
  "id_warnings idv =
     (case pick idv of
        None \<Rightarrow> Inr []
      | Some (JStr s) \<Rightarrow>
          Inr (if CHR ''/'' \<in> set s then []
               else [''Model ID should follow '' @ [CHR 0x22] @ ''provider/model-name'' @ [CHR 0x22] @ '' format''])
      | Some (JArr xs) \<Rightarrow>
          Inr (if JStr ''/'' \<in> set xs then []
               else [''Model ID should follow '' @ [CHR 0x22] @ ''provider/model-name'' @ [CHR 0x22] @ '' format''])
      | Some v \<Rightarrow> Inl (Error ''modelConfig.id.includes is not a function''))"

definition required_errors :: "json \<Rightarrow> string list" where
  "required_errors modelConfig =
     concat (map (\<lambda>field. if pick (prop_of modelConfig field) = None
                           then [''Missing required field: '' @ field] else [])
               [''id'', ''name'', ''type'', ''costPerImage''])"

definition cost_errors :: "js_relops \<Rightarrow> json \<Rightarrow> string list" where
  "cost_errors ops modelConfig =
     (case pick (prop_of modelConfig ''costPerImage'') of
        None \<Rightarrow> []
      | Some c \<Rightarrow>
          (if \<not> is_number c then [''costPerImage must be a number''] else []) @
          (if js_lt ops c (JNum 0) then [''costPerImage cannot be negative''] else []))"

text \<open>The callback of the loop over the parameters, on the two arrays.\<close>

definition check_param :: "js_relops \<Rightarrow> string \<times> json \<Rightarrow> string list \<times> string list
    \<Rightarrow> js_error + string list \<times> string list" where
  "check_param ops entry st =
     (case entry of (pname, param) \<Rightarrow>
        (case get_prop param ''type'' of
           Inl e \<Rightarrow> Inl e
         | Inr ty \<Rightarrow>
             Inr ((if ty = Some (JStr ''number'')
                   then (case (prop_of param ''min'', prop_of param ''max'') of
                           (Some mn, Some mx) \<Rightarrow>
                             if js_ge ops mn mx
                             then fst st @ [''Parameter '' @ pname @ '': min value must be less than max value'']
                             else fst st
                         | _ \<Rightarrow> fst st)
                   else fst st),
                  (if pick ty = None
                   then snd st @ [''Parameter '' @ pname @ '' is missing type definition'']
                   else snd st))))"

fun check_params :: "js_relops \<Rightarrow> (string \<times> json) list \<Rightarrow> string list \<times> string list
    \<Rightarrow> js_error + string list \<times> string list" where
  "check_params ops [] st = Inr st"
| "check_params ops (entry # rest) st =
     (case check_param ops entry st of Inl e \<Rightarrow> Inl e | Inr st' \<Rightarrow> check_params ops rest st')"

definition validateModelConfig :: "js_relops \<Rightarrow> json \<Rightarrow> js_error + validation" where
  "validateModelConfig ops modelConfig =
     (case get_prop modelConfig ''id'' of
        Inl e \<Rightarrow> Inl e
      | Inr idv \<Rightarrow>
          (case id_warnings idv of
             Inl e \<Rightarrow> Inl e
           | Inr ws \<Rightarrow>
               (case check_params ops
                       (case pick (prop_of modelConfig ''parameters'') of
                          None \<Rightarrow> [] | Some ps \<Rightarrow> entries ps)
                       (required_errors modelConfig @ cost_errors ops modelConfig, ws) of
                  Inl e \<Rightarrow> Inl e
                | Inr (es, ws') \<Rightarrow> Inr \<lparr>valid = (es = []), errors = es, warnings = ws'\<rparr>)))"

section \<open>A run with one failing task\<close>

text \<open>
  Three times the same task; the provider answers one image, except for the request at
  position 1, which times out.
\<close>

definition scenario_world :: world where
  "scenario_world =
     \<lparr>fal_subscribe = (\<lambda>call key m input.
          if call = 1 then Rejected (Error ''timeout'')
          else Resolved (JObj [(''images'', JArr [JObj [(''url'', JStr ''https://img/1.jpg'')]])])),
      ensureDir = (\<lambda>d. None),
      fetch_and_write = (\<lambda>d u. Inr 1)\<rparr>"

definition scenario_task :: task where
  "scenario_task = \<lparr>model = ''fal-ai/flux'', prompt = ''a cat'', parameters = [], imageCount = None\<rparr>"

definition scenario_options :: options where
  "scenario_options = default_options\<lparr>batchSize := 2, onProgress := True\<rparr>"

declare batch_loop.simps [code]

section \<open>Reading a cost breakdown\<close>

text \<open>
  The unit cost at which \<open>calculateCost\<close> counts a model id: the \<open>costPerImage\<close> of the
  first catalog entry with that id, when it is truthy. \<open>task_costs\<close> lists the costs of
  the tasks that are counted, in the order of the tasks.
\<close>

definition resolved_cost :: "model_config list \<Rightarrow> string \<Rightarrow> rat option" where
  "resolved_cost models m =
     (case find (\<lambda>mc. model_id mc = m) models of
        None \<Rightarrow> None
      | Some mc \<Rightarrow> (case costPerImage mc of None \<Rightarrow> None | Some c \<Rightarrow> if c = 0 then None else Some c))"



text \<open>
  A catalog with a model priced at 0.1 and a free one, and tasks for a known and an
  unlisted model.
\<close>

definition example_catalog :: "model_config list" where
  "example_catalog =
     [\<lparr>model_id = ''fal-ai/flux'', name = ''FLUX'', costPerImage = Some (round_double (1 / 10))\<rparr>,
      \<lparr>model_id = ''fal-ai/free'', name = ''Free'', costPerImage = Some 0\<rparr>]"

definition unlisted_task :: task where
  "unlisted_task = \<lparr>model = ''acme/unlisted'', prompt = ''a dog'', parameters = [], imageCount = Some 2\<rparr>"








section \<open>A response with an empty \<open>images\<close> array\<close>




text \<open>A configuration of a model that costs nothing.\<close>

definition free_model_config :: json where
  "free_model_config =
     JObj [(''id'', JStr ''fal-ai/free''), (''name'', JStr ''Free''), (''type'', JStr ''image''),
           (''costPerImage'', JNum 0)]"

section \<open>The loop of the orchestrator\<close>

text \<open>A run that returns either had a positive batch size or nothing left to do.\<close>

lemma batch_loop_returns:
  assumes "batch_loop w lat opts apiKey tasks i rs tr = Some y"
  shows "0 < batchSize opts \<or> of_nat (length tasks) \<le> i"
proof (rule batch_loop.raw_induct[where P = "\<lambda>w lat opts apiKey tasks i rs tr y. 0 < batchSize opts \<or> of_nat (length tasks) \<le> i", OF _ assms])
  fix bl w lat opts apiKey tasks i rs tr y
  assume IH: "\<And>w lat opts apiKey tasks i rs tr y. bl w lat opts apiKey tasks i rs tr = Some y \<Longrightarrow> 0 < batchSize opts \<or> of_nat (length tasks) \<le> i"
    and eq: "(if i < of_nat (length tasks)
      then case window w lat opts apiKey tasks i of
           (batchResults, evs) \<Rightarrow>
             bl w lat opts apiKey tasks (i + batchSize opts)
              (rs @ batchResults) (tr @ evs)
      else Some (rs, tr)) = Some y"
  show "0 < batchSize opts \<or> of_nat (length tasks) \<le> i"
  proof (cases "i < of_nat (length tasks)")
    case True
    obtain x1 x2 where wd: "window w lat opts apiKey tasks i = (x1, x2)" by force
    from eq True wd have "bl w lat opts apiKey tasks (i + batchSize opts) (rs @ x1) (tr @ x2) = Some y"
      by simp
    from IH[OF this] True show ?thesis by linarith
  next
    case False
    then show ?thesis by simp
  qed
qed

text \<open>A whole batch size of at least 1 is the number of its own floor.\<close>

lemma whole_batch_size:
  assumes "batchSize opts \<in> \<int>" and "1 \<le> batchSize opts"
  shows "batchSize opts = of_nat (nat \<lfloor>batchSize opts\<rfloor>)" and "0 < nat \<lfloor>batchSize opts\<rfloor>"
proof -
  from assms(1) have "of_int \<lfloor>batchSize opts\<rfloor> = batchSize opts"
    by (simp add: of_int_floor_cancel)
  moreover from assms(2) have "1 \<le> \<lfloor>batchSize opts\<rfloor>" by linarith
  ultimately show "batchSize opts = of_nat (nat \<lfloor>batchSize opts\<rfloor>)"
    by (metis int_nat_eq of_int_of_nat_eq order_trans zero_le_one)
  from \<open>1 \<le> \<lfloor>batchSize opts\<rfloor>\<close> show "0 < nat \<lfloor>batchSize opts\<rfloor>" by simp
qed

text \<open>The window taken by one iteration, for a whole batch size of at least 1.\<close>

lemma rel_index_nat: "k \<le> n \<Longrightarrow> rel_index n (int k) = k"
  by (simp add: rel_index_def)

lemma js_trunc_of_nat: "js_trunc (of_nat k) = int k"
  by (simp add: js_trunc_def)

lemma slice_window:
  assumes "k < length xs" and "0 < b"
  shows "slice xs (of_nat k) (of_nat k + of_nat b) = take b (drop k xs)"
proof -
  have k: "rel_index (length xs) (js_trunc (of_nat k)) = k"
    using assms(1) by (simp add: rel_index_def js_trunc_of_nat)
  have "js_trunc (of_nat k + of_nat b) = int (k + b)"
    using js_trunc_of_nat[of "k + b"] by simp
  then have f: "rel_index (length xs) (js_trunc (of_nat k + of_nat b)) = min (k + b) (length xs)"
    by (auto simp: rel_index_def min_def)
  have "take (min (k + b) (length xs) - k) (drop k xs) = take b (drop k xs)"
    using assms by (auto simp: min_def)
  then show ?thesis
    by (simp add: slice_def k f)
qed

lemma dispatched_append: "dispatched (xs @ ys) = dispatched xs @ dispatched ys"
  by (induction xs rule: dispatched.induct) auto

lemma settled_append: "settled (xs @ ys) = settled xs @ settled ys"
  by (induction xs rule: settled.induct) auto

lemma progress_calls_append: "progress_calls (xs @ ys) = progress_calls xs @ progress_calls ys"
  by (induction xs rule: progress_calls.induct) auto

lemma dispatched_map_Dispatch: "dispatched (map Dispatch ps) = ps"
  by (induction ps) auto

lemma settled_map_Dispatch: "settled (map Dispatch ps) = []"
  by (induction ps) auto

lemma progress_calls_map_Dispatch: "progress_calls (map Dispatch ps) = []"
  by (induction ps) auto

lemma dispatched_settle_events: "dispatched (concat (map (settle_events opts n i k0) js)) = []"
  by (induction js) (auto simp: settle_events_def dispatched_append split: prod.splits)

lemma settled_settle_events:
  "settled (concat (map (settle_events opts n i k0) js)) = map (\<lambda>(j, t, r). k0 + j) js"
  by (induction js) (auto simp: settle_events_def settled_append split: prod.splits)

lemma window_jobs:
  assumes "k < length tasks" and "batchSize opts \<in> \<int>" and "1 \<le> batchSize opts"
  shows "map (\<lambda>(batchIndex, t). (batchIndex, t, run_task w opts apiKey (k + batchIndex) t))
           (enumerate 0 (take (nat \<lfloor>batchSize opts\<rfloor>) (drop k tasks)))
         = jobs_of w opts apiKey tasks k"
proof (rule nth_equalityI)
  let ?b = "nat \<lfloor>batchSize opts\<rfloor>"
  let ?batch = "take ?b (drop k tasks)"
  have len: "length ?batch = min (k + ?b) (length tasks) - k"
    using assms by (auto simp: min_def)
  show "length (map (\<lambda>(batchIndex, t). (batchIndex, t, run_task w opts apiKey (k + batchIndex) t))
           (enumerate 0 ?batch)) = length (jobs_of w opts apiKey tasks k)"
    by (simp add: jobs_of_def window_positions_def len del: length_take length_drop)
  fix j
  assume "j < length (map (\<lambda>(batchIndex, t). (batchIndex, t, run_task w opts apiKey (k + batchIndex) t))
           (enumerate 0 ?batch))"
  then have j: "j < length ?batch" by simp
  then have j': "j < min (k + ?b) (length tasks) - k" by (auto simp: min_def split: if_splits)
  have nth_batch: "?batch ! j = tasks ! (k + j)"
    using j assms(1) by simp
  have "k + j < min (k + ?b) (length tasks)"
    using j' by linarith
  then have "[k..<min (k + ?b) (length tasks)] ! j = k + j"
    by (rule nth_upt)
  then have "jobs_of w opts apiKey tasks k ! j = (j, tasks ! (k + j), run_task w opts apiKey (k + j) (tasks ! (k + j)))"
    using j' by (simp add: jobs_of_def window_positions_def)
  moreover have "map (\<lambda>(batchIndex, t). (batchIndex, t, run_task w opts apiKey (k + batchIndex) t))
           (enumerate 0 ?batch) ! j = (j, tasks ! (k + j), run_task w opts apiKey (k + j) (tasks ! (k + j)))"
    using j nth_batch by (simp add: nth_enumerate_eq del: nth_take nth_drop length_take length_drop)
  ultimately show "map (\<lambda>(batchIndex, t). (batchIndex, t, run_task w opts apiKey (k + batchIndex) t))
           (enumerate 0 ?batch) ! j = jobs_of w opts apiKey tasks k ! j"
    by simp
qed

lemma window_eq:
  assumes "k < length tasks" and "batchSize opts \<in> \<int>" and "1 \<le> batchSize opts"
  shows "window w lat opts apiKey tasks (of_nat k) =
     (map (\<lambda>(j, t, r). r) (jobs_of w opts apiKey tasks k),
      map (\<lambda>(j, t, r). Dispatch (k + j)) (jobs_of w opts apiKey tasks k) @
      concat (map (settle_events opts (length tasks) (of_nat k) k)
        (sort_key (\<lambda>(j, t, r). lat (k + j)) (jobs_of w opts apiKey tasks k))))"
proof -
  let ?b = "nat \<lfloor>batchSize opts\<rfloor>"
  have b: "batchSize opts = of_nat ?b" and pos: "0 < ?b"
    using whole_batch_size[OF assms(2,3)] by blast+
  have k: "rel_index (length tasks) (js_trunc (of_nat k)) = k"
    using assms(1) by (simp add: rel_index_nat js_trunc_of_nat)
  have s: "slice tasks (of_nat k) (of_nat k + batchSize opts) = take ?b (drop k tasks)"
    using slice_window[OF assms(1) pos] b by simp
  show ?thesis
    unfolding window_def Let_def s k window_jobs[OF assms]
    by (rule refl)
qed

text \<open>The consecutive windows cover every position once; the loop runs them in turn.\<close>

lemma window_starts_bound: "k \<in> set (window_starts b i n) \<Longrightarrow> i \<le> k \<and> k < n"
proof (induction b i n rule: window_starts.induct)
  case (1 b i n)
  show ?case
  proof (cases "0 < b \<and> i < n")
    case True
    then have "window_starts b i n = i # window_starts b (i + b) n"
      by (subst window_starts.simps) simp
    with 1 True show ?thesis by auto
  next
    case False
    then have "window_starts b i n = []"
      by (subst window_starts.simps) simp
    with 1(2) show ?thesis by simp
  qed
qed

lemma concat_window_positions:
  "0 < b \<Longrightarrow> concat (map (window_positions b n) (window_starts b i n)) = [i..<n]"
proof (induction b i n rule: window_starts.induct)
  case (1 b i n)
  show ?case
  proof (cases "i < n")
    case True
    with 1(2) have ws: "window_starts b i n = i # window_starts b (i + b) n"
      by (subst window_starts.simps) simp
    have IH: "concat (map (window_positions b n) (window_starts b (i + b) n)) = [i + b..<n]"
      using 1 True by simp
    have app: "[i..<min (i + b) n] @ [i + b..<n] = [i..<n]"
    proof (cases "i + b \<le> n")
      case True
      then show ?thesis
        by (simp add: min_def upt_add_eq_append[symmetric] le_Suc_ex)
          (metis le_add1 le_Suc_ex upt_add_eq_append)
    next
      case False
      then show ?thesis by (simp add: min_def)
    qed
    have "concat (map (window_positions b n) (window_starts b i n)) =
          window_positions b n i @ [i + b..<n]"
      by (simp add: ws IH)
    also have "\<dots> = [i..<n]"
      using app by (simp add: window_positions_def)
    finally show ?thesis .
  next
    case False
    then have "window_starts b i n = []"
      by (subst window_starts.simps) simp
    with False show ?thesis by simp
  qed
qed

lemma batch_loop_closed:
  assumes "batchSize opts \<in> \<int>" and "1 \<le> batchSize opts"
  shows "batch_loop w lat opts apiKey tasks (of_nat i) rs tr =
     Some (rs @ concat (map (\<lambda>k. fst (window w lat opts apiKey tasks (of_nat k)))
                  (window_starts (nat \<lfloor>batchSize opts\<rfloor>) i (length tasks))),
           tr @ concat (map (\<lambda>k. snd (window w lat opts apiKey tasks (of_nat k)))
                  (window_starts (nat \<lfloor>batchSize opts\<rfloor>) i (length tasks))))"
proof (induction b\<equiv>"nat \<lfloor>batchSize opts\<rfloor>" i n\<equiv>"length tasks" arbitrary: rs tr rule: window_starts.induct)
  case (1 i)
  let ?b = "nat \<lfloor>batchSize opts\<rfloor>"
  have b: "batchSize opts = of_nat ?b" and pos: "0 < ?b"
    using whole_batch_size[OF assms] by blast+
  show ?case
  proof (cases "i < length tasks")
    case True
    have ws: "window_starts ?b i (length tasks) = i # window_starts ?b (i + ?b) (length tasks)"
      using True pos by (subst window_starts.simps) simp
    obtain x1 x2 where wd: "window w lat opts apiKey tasks (of_nat i) = (x1, x2)" by force
    have nxt: "of_nat i + batchSize opts = of_nat (i + ?b)"
      by (subst b) simp
    have lt: "(of_nat i :: rat) < of_nat (length tasks)" using True by simp
    have "batch_loop w lat opts apiKey tasks (of_nat i) rs tr =
          batch_loop w lat opts apiKey tasks (of_nat (i + ?b)) (rs @ x1) (tr @ x2)"
      by (subst batch_loop.simps) (simp only: lt if_True wd nxt prod.case)
    also have "\<dots> = Some ((rs @ x1) @ concat (map (\<lambda>k. fst (window w lat opts apiKey tasks (of_nat k)))
                  (window_starts ?b (i + ?b) (length tasks))),
           (tr @ x2) @ concat (map (\<lambda>k. snd (window w lat opts apiKey tasks (of_nat k)))
                  (window_starts ?b (i + ?b) (length tasks))))"
      using 1 True pos by blast
    finally show ?thesis
      by (simp add: ws wd)
  next
    case False
    then have "window_starts ?b i (length tasks) = []"
      by (subst window_starts.simps) simp
    moreover have "\<not> (of_nat i :: rat) < of_nat (length tasks)" using False by simp
    ultimately show ?thesis
      by (subst batch_loop.simps) simp
  qed
qed

lemma jobs_results:
  "map (\<lambda>(j, t, r). r) (jobs_of w opts apiKey tasks k) =
   map (\<lambda>p. run_task w opts apiKey p (tasks ! p)) (window_positions (nat \<lfloor>batchSize opts\<rfloor>) (length tasks) k)"
  by (simp add: jobs_of_def case_prod_beta comp_def)

lemma jobs_positions:
  "map (\<lambda>(j, t, r). k + j) (jobs_of w opts apiKey tasks k) =
   window_positions (nat \<lfloor>batchSize opts\<rfloor>) (length tasks) k"
  by (auto simp: jobs_of_def window_positions_def comp_def intro!: map_idI)

lemma jobs_dispatches:
  "map (\<lambda>(j, t, r). Dispatch (k + j)) (jobs_of w opts apiKey tasks k) =
   map Dispatch (window_positions (nat \<lfloor>batchSize opts\<rfloor>) (length tasks) k)"
proof -
  have "map (\<lambda>(j, t, r). Dispatch (k + j)) (jobs_of w opts apiKey tasks k) =
        map Dispatch (map (\<lambda>(j, t, r). k + j) (jobs_of w opts apiKey tasks k))"
    by (simp add: comp_def case_prod_beta)
  then show ?thesis by (simp only: jobs_positions)
qed

lemma generateBatch_closed:
  assumes "batchSize opts \<in> \<int>" and "1 \<le> batchSize opts"
  shows "generateBatch w lat tasks apiKey opts =
     Some (map (\<lambda>p. run_task w opts apiKey p (tasks ! p)) [0..<length tasks],
           concat (map (\<lambda>k. map Dispatch (window_positions (nat \<lfloor>batchSize opts\<rfloor>) (length tasks) k) @
                            settlements w lat opts apiKey tasks k)
                    (window_starts (nat \<lfloor>batchSize opts\<rfloor>) 0 (length tasks))))"
proof -
  let ?b = "nat \<lfloor>batchSize opts\<rfloor>" and ?n = "length tasks"
  let ?f = "\<lambda>p. run_task w opts apiKey p (tasks ! p)"
  have pos: "0 < ?b" using whole_batch_size[OF assms] by blast
  have win: "window w lat opts apiKey tasks (of_nat k) =
       (map ?f (window_positions ?b ?n k),
        map Dispatch (window_positions ?b ?n k) @ settlements w lat opts apiKey tasks k)"
    if "k \<in> set (window_starts ?b 0 ?n)" for k
  proof -
    from that have "k < ?n" using window_starts_bound by blast
    then show ?thesis
      by (simp only: window_eq[OF _ assms] jobs_results jobs_dispatches settlements_def)
  qed
  have r: "concat (map (\<lambda>k. fst (window w lat opts apiKey tasks (of_nat k))) (window_starts ?b 0 ?n))
        = map ?f [0..<?n]"
  proof -
    have eq: "map (\<lambda>k. fst (window w lat opts apiKey tasks (of_nat k))) (window_starts ?b 0 ?n)
        = map (\<lambda>k. map ?f (window_positions ?b ?n k)) (window_starts ?b 0 ?n)"
      by (rule map_cong[OF refl]) (simp add: win)
    have "concat (map (\<lambda>k. map ?f (window_positions ?b ?n k)) (window_starts ?b 0 ?n))
        = map ?f (concat (map (window_positions ?b ?n) (window_starts ?b 0 ?n)))"
      by (simp add: map_concat comp_def)
    then show ?thesis
      by (simp only: eq concat_window_positions[OF pos])
  qed
  have t: "map (\<lambda>k. snd (window w lat opts apiKey tasks (of_nat k))) (window_starts ?b 0 ?n)
        = map (\<lambda>k. map Dispatch (window_positions ?b ?n k) @ settlements w lat opts apiKey tasks k)
            (window_starts ?b 0 ?n)"
    by (rule map_cong[OF refl]) (simp add: win)
  show ?thesis
    unfolding generateBatch_def
    using batch_loop_closed[OF assms, of w lat apiKey tasks 0 "[]" "[]"]
    by (simp only: r t append_Nil of_nat_0)
qed


lemma settlements_dispatched: "dispatched (settlements w lat opts apiKey tasks k) = []"
  by (simp add: settlements_def dispatched_settle_events)


text \<open>Tasks in flight: a finished window leaves none, an unfinished one has at most its own.\<close>

lemma length_filter_mono:
  "(\<And>x. x \<in> set xs \<Longrightarrow> P x \<Longrightarrow> Q x) \<Longrightarrow> length (filter P xs) \<le> length (filter Q xs)"
  by (induction xs) auto

lemma running_le_dispatched: "length (running es) \<le> length (dispatched es)"
  by (simp add: running_def)

lemma dispatched_take_le: "length (dispatched (take m es)) \<le> length (dispatched es)"
proof -
  have "dispatched es = dispatched (take m es) @ dispatched (drop m es)"
    by (simp add: dispatched_append[symmetric])
  then show ?thesis by simp
qed

lemma running_append_closed:
  assumes "set (dispatched A) \<subseteq> set (settled A)"
  shows "length (running (A @ B)) \<le> length (running B)"
proof -
  have "filter (\<lambda>k. k \<notin> set (settled (A @ B))) (dispatched A) = []"
    using assms by (auto simp: settled_append filter_empty_conv)
  then have "running (A @ B) = filter (\<lambda>k. k \<notin> set (settled (A @ B))) (dispatched B)"
    by (simp add: running_def dispatched_append)
  also have "length \<dots> \<le> length (filter (\<lambda>k. k \<notin> set (settled B)) (dispatched B))"
    by (rule length_filter_mono) (simp add: settled_append)
  finally show ?thesis by (simp add: running_def)
qed

lemma bounded_append:
  assumes cl: "set (dispatched A) \<subseteq> set (settled A)"
    and bA: "\<forall>m. length (running (take m A)) \<le> b"
    and bB: "\<forall>m. length (running (take m B)) \<le> b"
  shows "length (running (take m (A @ B))) \<le> b"
proof (cases "m \<le> length A")
  case True
  then show ?thesis using bA by simp
next
  case False
  then have "take m (A @ B) = A @ take (m - length A) B" by simp
  then have "length (running (take m (A @ B))) \<le> length (running (take (m - length A) B))"
    using running_append_closed[OF cl] by simp
  with bB show ?thesis using le_trans by blast
qed

lemma bounded_concat:
  assumes "\<And>W. W \<in> set Ws \<Longrightarrow> set (dispatched W) \<subseteq> set (settled W)"
    and "\<And>W m. W \<in> set Ws \<Longrightarrow> length (running (take m W)) \<le> b"
  shows "length (running (take m (concat Ws))) \<le> b"
  using assms
proof (induction Ws arbitrary: m)
  case Nil
  then show ?case by (simp add: running_def)
next
  case (Cons W Ws)
  have "length (running (take m (W @ concat Ws))) \<le> b"
  proof (rule bounded_append)
    show "set (dispatched W) \<subseteq> set (settled W)" using Cons.prems(1) by simp
    show "\<forall>m. length (running (take m W)) \<le> b" using Cons.prems(2) by simp
    show "\<forall>m. length (running (take m (concat Ws))) \<le> b"
      using Cons.IH Cons.prems by simp
  qed
  then show ?case by simp
qed

lemma settlements_settled:
  "mset (settled (settlements w lat opts apiKey tasks k)) =
   mset (window_positions (nat \<lfloor>batchSize opts\<rfloor>) (length tasks) k)"
proof -
  have "settled (settlements w lat opts apiKey tasks k) =
        map (\<lambda>(j, t, r). k + j) (sort_key (\<lambda>(j, t, r). lat (k + j)) (jobs_of w opts apiKey tasks k))"
    by (simp add: settlements_def settled_settle_events)
  then have "mset (settled (settlements w lat opts apiKey tasks k)) =
        mset (map (\<lambda>(j, t, r). k + j) (jobs_of w opts apiKey tasks k))"
    by simp
  then show ?thesis by (simp only: jobs_positions)
qed

lemma window_positions_length: "length (window_positions b n k) \<le> b"
  by (simp add: window_positions_def)

lemma window_trace_closed:
  "set (dispatched (map Dispatch (window_positions (nat \<lfloor>batchSize opts\<rfloor>) (length tasks) k) @
          settlements w lat opts apiKey tasks k))
   \<subseteq> set (settled (map Dispatch (window_positions (nat \<lfloor>batchSize opts\<rfloor>) (length tasks) k) @
          settlements w lat opts apiKey tasks k))"
proof -
  have "set (settled (settlements w lat opts apiKey tasks k)) =
        set (window_positions (nat \<lfloor>batchSize opts\<rfloor>) (length tasks) k)"
    using settlements_settled[of w lat opts apiKey tasks k] by (metis set_mset_mset)
  then show ?thesis
    by (simp add: dispatched_append settled_append dispatched_map_Dispatch settled_map_Dispatch
        settlements_dispatched)
qed

lemma window_trace_bounded:
  "length (running (take m (map Dispatch (window_positions (nat \<lfloor>batchSize opts\<rfloor>) (length tasks) k) @
          settlements w lat opts apiKey tasks k))) \<le> nat \<lfloor>batchSize opts\<rfloor>"
proof -
  let ?W = "map Dispatch (window_positions (nat \<lfloor>batchSize opts\<rfloor>) (length tasks) k) @
          settlements w lat opts apiKey tasks k"
  have "length (running (take m ?W)) \<le> length (dispatched (take m ?W))"
    by (rule running_le_dispatched)
  also have "\<dots> \<le> length (dispatched ?W)"
    by (rule dispatched_take_le)
  also have "\<dots> = length (window_positions (nat \<lfloor>batchSize opts\<rfloor>) (length tasks) k)"
    by (simp add: dispatched_append dispatched_map_Dispatch settlements_dispatched)
  also have "\<dots> \<le> nat \<lfloor>batchSize opts\<rfloor>"
    by (rule window_positions_length)
  finally show ?thesis .
qed





section \<open>Properties of the orchestrator\<close>





text \<open>
  C3, as stated, fails: with three tasks and a batch size of 3/2 the windows are the
  first task and then the other two (\<open>slice\<close> drops the fractions of 0, 3/2 and 3), so
  two tasks are in flight under a bound of 3/2.
\<close>

theorem fractional_batch_size_exceeds_bound:
  "map_option snd
     (generateBatch scenario_world (\<lambda>k. 0) [scenario_task, scenario_task, scenario_task] ''key''
        (default_options\<lparr>batchSize := 3 / 2\<rparr>)) =
     Some [Dispatch 0, Settle 0, Dispatch 1, Dispatch 2, Settle 1, Settle 2] \<and>
   running (take 4 [Dispatch 0, Settle 0, Dispatch 1, Dispatch 2, Settle 1, Settle 2]) = [1, 2] \<and>
   \<not> of_nat (length (running (take 4 [Dispatch 0, Settle 0, Dispatch 1, Dispatch 2, Settle 1, Settle 2])))
       \<le> batchSize (default_options\<lparr>batchSize := 3 / 2\<rparr>)"
  by code_simp

text \<open>
  C3 (bounded concurrency by sequential windows), amended. For a whole batch size \<open>b\<close>
  of at least 1 the trace of the run is the concatenation, over the consecutive windows
  of at most \<open>b\<close> positions that partition the task list, of the dispatches of all tasks
  of the window followed by the settlements of exactly these tasks; and after any number
  of events, at most \<open>b\<close> tasks are dispatched and not yet settled.
\<close>

theorem bounded_concurrency:
  assumes "batchSize opts \<in> \<int>" and "1 \<le> batchSize opts"
  shows "\<exists>rs tr.
     generateBatch w lat tasks apiKey opts = Some (rs, tr) \<and>
     tr = concat (map (\<lambda>k. map Dispatch (window_positions (nat \<lfloor>batchSize opts\<rfloor>) (length tasks) k) @
                          settlements w lat opts apiKey tasks k)
                    (window_starts (nat \<lfloor>batchSize opts\<rfloor>) 0 (length tasks))) \<and>
     concat (map (window_positions (nat \<lfloor>batchSize opts\<rfloor>) (length tasks))
                 (window_starts (nat \<lfloor>batchSize opts\<rfloor>) 0 (length tasks))) = [0..<length tasks] \<and>
     (\<forall>k. length (window_positions (nat \<lfloor>batchSize opts\<rfloor>) (length tasks) k) \<le> nat \<lfloor>batchSize opts\<rfloor> \<and>
          dispatched (settlements w lat opts apiKey tasks k) = [] \<and>
          mset (settled (settlements w lat opts apiKey tasks k)) =
            mset (window_positions (nat \<lfloor>batchSize opts\<rfloor>) (length tasks) k)) \<and>
     (\<forall>m. of_nat (length (running (take m tr))) \<le> batchSize opts)"
proof -
  let ?b = "nat \<lfloor>batchSize opts\<rfloor>" and ?n = "length tasks"
  let ?W = "\<lambda>k. map Dispatch (window_positions ?b ?n k) @ settlements w lat opts apiKey tasks k"
  let ?tr = "concat (map ?W (window_starts ?b 0 ?n))"
  have b: "batchSize opts = of_nat ?b" and pos: "0 < ?b"
    using whole_batch_size[OF assms] by blast+
  have run: "generateBatch w lat tasks apiKey opts =
      Some (map (\<lambda>p. run_task w opts apiKey p (tasks ! p)) [0..<?n], ?tr)"
    by (rule generateBatch_closed[OF assms])
  have bound: "of_nat (length (running (take m ?tr))) \<le> batchSize opts" for m
  proof -
    have "length (running (take m ?tr)) \<le> ?b"
    proof (rule bounded_concat)
      fix W assume "W \<in> set (map ?W (window_starts ?b 0 ?n))"
      then obtain k where W: "W = ?W k" by auto
      show "set (dispatched W) \<subseteq> set (settled W)"
        unfolding W by (rule window_trace_closed)
      fix m' show "length (running (take m' W)) \<le> ?b"
        unfolding W by (rule window_trace_bounded)
    qed
    then have "(of_nat (length (running (take m ?tr))) :: rat) \<le> of_nat ?b"
      by (simp only: of_nat_le_iff)
    then show ?thesis using b by simp
  qed
  show ?thesis
    using run bound
    by (simp add: concat_window_positions[OF pos] window_positions_length
        settlements_dispatched settlements_settled)
qed

theorem bounded_concurrency_witness:
  "batchSize scenario_options \<in> \<int> \<and>
   1 \<le> batchSize scenario_options \<and>
   (\<exists>rs tr.
     generateBatch scenario_world (\<lambda>k. 3 - k) [scenario_task, scenario_task, scenario_task] ''key''
       scenario_options = Some (rs, tr) \<and>
     tr = concat (map (\<lambda>k. map Dispatch (window_positions (nat \<lfloor>batchSize scenario_options\<rfloor>)
                               (length [scenario_task, scenario_task, scenario_task]) k) @
                          settlements scenario_world (\<lambda>k. 3 - k) scenario_options ''key''
                            [scenario_task, scenario_task, scenario_task] k)
                    (window_starts (nat \<lfloor>batchSize scenario_options\<rfloor>) 0
                       (length [scenario_task, scenario_task, scenario_task]))) \<and>
     concat (map (window_positions (nat \<lfloor>batchSize scenario_options\<rfloor>)
                    (length [scenario_task, scenario_task, scenario_task]))
                 (window_starts (nat \<lfloor>batchSize scenario_options\<rfloor>) 0
                    (length [scenario_task, scenario_task, scenario_task])))
       = [0..<length [scenario_task, scenario_task, scenario_task]] \<and>
     (\<forall>k. length (window_positions (nat \<lfloor>batchSize scenario_options\<rfloor>)
                     (length [scenario_task, scenario_task, scenario_task]) k)
            \<le> nat \<lfloor>batchSize scenario_options\<rfloor> \<and>
          dispatched (settlements scenario_world (\<lambda>k. 3 - k) scenario_options ''key''
                        [scenario_task, scenario_task, scenario_task] k) = [] \<and>
          mset (settled (settlements scenario_world (\<lambda>k. 3 - k) scenario_options ''key''
                        [scenario_task, scenario_task, scenario_task] k)) =
            mset (window_positions (nat \<lfloor>batchSize scenario_options\<rfloor>)
                    (length [scenario_task, scenario_task, scenario_task]) k)) \<and>
     (\<forall>m. of_nat (length (running (take m tr))) \<le> batchSize scenario_options))"
proof -
  have h0: "batchSize scenario_options \<in> \<int>"
    by (simp add: scenario_options_def default_options_def)
  have h1: "1 \<le> batchSize scenario_options"
    by (simp add: scenario_options_def default_options_def)
  show ?thesis
    by (intro conjI h0 h1 bounded_concurrency[OF h0 h1])
qed

text \<open>The progress callback is called once per task, with the positions 1 to N in some order.\<close>

lemma progress_calls_concat: "progress_calls (concat xss) = concat (map progress_calls xss)"
  by (induction xss) (simp_all add: progress_calls_append)

lemma progress_settle_events:
  "onProgress opts \<Longrightarrow>
   map completed (progress_calls (concat (map (settle_events opts n i k0) js))) =
   map (\<lambda>(j, t, r). i + of_nat j + 1) js"
  by (induction js) (auto simp: settle_events_def progress_calls_append split: prod.splits)

lemma settlements_progress:
  assumes "onProgress opts"
  shows "mset (map completed (progress_calls (settlements w lat opts apiKey tasks k))) =
         mset (map (\<lambda>p. of_nat p + 1) (window_positions (nat \<lfloor>batchSize opts\<rfloor>) (length tasks) k))"
proof -
  let ?jobs = "jobs_of w opts apiKey tasks k"
  have "map completed (progress_calls (settlements w lat opts apiKey tasks k)) =
        map (\<lambda>(j, t, r). of_nat k + of_nat j + 1) (sort_key (\<lambda>(j, t, r). lat (k + j)) ?jobs)"
    by (simp add: settlements_def progress_settle_events[OF assms])
  then have "mset (map completed (progress_calls (settlements w lat opts apiKey tasks k))) =
        mset (map (\<lambda>(j, t, r). of_nat k + of_nat j + 1) ?jobs)"
    by simp
  also have "map (\<lambda>(j, t, r). of_nat k + of_nat j + 1) ?jobs =
        map (\<lambda>p. of_nat p + 1) (map (\<lambda>(j, t, r). k + j) ?jobs)"
    by (simp add: comp_def case_prod_beta)
  finally show ?thesis by (simp only: jobs_positions)
qed

lemma mset_concat_map_cong:
  "(\<And>x. x \<in> set xs \<Longrightarrow> mset (f x) = mset (g x)) \<Longrightarrow>
   mset (concat (map f xs)) = mset (concat (map g xs))"
  by (induction xs) auto

lemma progress_once_per_task:
  assumes "batchSize opts \<in> \<int>" and "1 \<le> batchSize opts" and "onProgress opts"
  shows "\<exists>rs tr. generateBatch w lat tasks apiKey opts = Some (rs, tr) \<and>
           mset (map completed (progress_calls tr)) = mset (map (\<lambda>p. of_nat p + 1) [0..<length tasks])"
proof -
  let ?b = "nat \<lfloor>batchSize opts\<rfloor>" and ?n = "length tasks"
  let ?W = "\<lambda>k. map Dispatch (window_positions ?b ?n k) @ settlements w lat opts apiKey tasks k"
  have pos: "0 < ?b" using whole_batch_size[OF assms(1,2)] by blast
  have "map completed (progress_calls (concat (map ?W (window_starts ?b 0 ?n)))) =
        concat (map (\<lambda>k. map completed (progress_calls (settlements w lat opts apiKey tasks k)))
                  (window_starts ?b 0 ?n))"
    by (simp add: progress_calls_concat map_concat comp_def progress_calls_append
        progress_calls_map_Dispatch)
  then have "mset (map completed (progress_calls (concat (map ?W (window_starts ?b 0 ?n))))) =
        mset (concat (map (\<lambda>k. map (\<lambda>p. of_nat p + 1) (window_positions ?b ?n k)) (window_starts ?b 0 ?n)))"
    using mset_concat_map_cong[of "window_starts ?b 0 ?n"
        "\<lambda>k. map completed (progress_calls (settlements w lat opts apiKey tasks k))"
        "\<lambda>k. map (\<lambda>p. of_nat p + 1) (window_positions ?b ?n k)"]
      settlements_progress[OF assms(3)]
    by simp
  also have "concat (map (\<lambda>k. map (\<lambda>p. of_nat p + 1) (window_positions ?b ?n k)) (window_starts ?b 0 ?n))
      = map (\<lambda>p. of_nat p + 1) (concat (map (window_positions ?b ?n) (window_starts ?b 0 ?n)))"
    by (simp add: map_concat comp_def)
  finally show ?thesis
    by (simp add: generateBatch_closed[OF assms(1,2)] concat_window_positions[OF pos])
qed

lemma scenario_two_tasks:
  "generateBatch scenario_world (\<lambda>k. 1 - k) [scenario_task, scenario_task] ''key'' scenario_options =
   Some ([Success ''fal-ai/flux'' ''a cat'' [JStr ''https://img/1.jpg''] [] None
            (JObj [(''images'', JArr [JObj [(''url'', JStr ''https://img/1.jpg'')]])]) None,
          Failure ''fal-ai/flux'' ''a cat'' ''timeout'' None],
         [Dispatch 0, Dispatch 1,
          Settle 1,
          OnProgress \<lparr>completed = 2, total = 2, currentTask = scenario_task,
             result = Failure ''fal-ai/flux'' ''a cat'' ''timeout'' None\<rparr>,
          Settle 0,
          OnProgress \<lparr>completed = 1, total = 2, currentTask = scenario_task,
             result = Success ''fal-ai/flux'' ''a cat'' [JStr ''https://img/1.jpg''] [] None
               (JObj [(''images'', JArr [JObj [(''url'', JStr ''https://img/1.jpg'')]])]) None\<rparr>])"
  by code_simp

lemma never_returns:
  assumes "batchSize opts \<le> 0" and "tasks \<noteq> []"
  shows "generateBatch w lat tasks apiKey opts = None"
proof (cases "generateBatch w lat tasks apiKey opts")
  case None
  then show ?thesis .
next
  case (Some y)
  then have "batch_loop w lat opts apiKey tasks 0 [] [] = Some y"
    by (simp add: generateBatch_def)
  from batch_loop_returns[OF this] assms show ?thesis by simp
qed

text \<open>A batch size of one half is not refused either: the run returns, without an error.\<close>

lemma half_batch_size_returns:
  "generateBatch scenario_world (\<lambda>k. 0) [scenario_task] ''key'' (default_options\<lparr>batchSize := 1 / 2\<rparr>) =
   Some ([Success ''fal-ai/flux'' ''a cat'' [JStr ''https://img/1.jpg''] [] None
            (JObj [(''images'', JArr [JObj [(''url'', JStr ''https://img/1.jpg'')]])]) None],
         [Dispatch 0, Settle 0])"
  by code_simp

text \<open>
  C4 (progress completeness). The callback is called once per task, but the value
  \<open>completed\<close> is the position of the task plus one, not a count of completions: with
  two tasks in one window and the second settling first, the callback receives 2 and
  then 1.
\<close>

theorem progress_count_out_of_order:
  "\<exists>rs tr. generateBatch scenario_world (\<lambda>k. 1 - k) [scenario_task, scenario_task] ''key''
              scenario_options = Some (rs, tr) \<and>
           map completed (progress_calls tr) = [2, 1]"
  by (rule exI, rule exI, rule conjI, rule scenario_two_tasks) simp

text \<open>
  C5 (guard on the concurrency bound). Nothing checks the batch size: with a whole
  batch size below 1 the call returns the empty list for an empty task list, without an
  error, and never returns for any other task list.
\<close>

theorem batch_size_not_enforced:
  assumes "batchSize opts \<in> \<int>" and "batchSize opts < 1"
  shows "generateBatch w lat tasks apiKey opts = (if tasks = [] then Some ([], []) else None)"
proof (cases "tasks = []")
  case True
  then show ?thesis
    by (simp add: generateBatch_def batch_loop.simps)
next
  case False
  from assms(1) obtain z where z: "batchSize opts = of_int z" by (rule Ints_cases)
  with assms(2) have "z < 1" by simp
  then have "batchSize opts \<le> 0" using z by simp
  from never_returns[OF this False] False show ?thesis by simp
qed

theorem batch_size_not_enforced_witness:
  "batchSize (default_options\<lparr>batchSize := 0\<rparr>) \<in> \<int> \<and>
   batchSize (default_options\<lparr>batchSize := 0\<rparr>) < 1 \<and>
   generateBatch scenario_world (\<lambda>k. 0) [scenario_task] ''key'' (default_options\<lparr>batchSize := 0\<rparr>) = None"
proof -
  have h0: "batchSize (default_options\<lparr>batchSize := 0\<rparr>) \<in> \<int>" by simp
  have h: "batchSize (default_options\<lparr>batchSize := 0\<rparr>) < 1" by simp
  show ?thesis
    using h0 h batch_size_not_enforced[OF h0 h, of scenario_world "\<lambda>k. 0" "[scenario_task]" "''key''"]
    by simp
qed

section \<open>Properties of the spending gate and of cost estimation\<close>

text \<open>
  C6 (spending gate). With the confirmation flag set the check never raises the signal;
  without it, the signal \<open>SPENDING_CONFIRMATION_REQUIRED\<close> is raised exactly when the
  estimated cost is greater than the limit of 5.
\<close>

theorem spending_gate:
  "check_spending estimatedCost n True = None \<and>
   (check_spending estimatedCost n False \<noteq> None) = (estimatedCost > 5) \<and>
   check_spending estimatedCost n False =
     (if estimatedCost > 5
      then Some \<lparr>signal_type = ''SPENDING_CONFIRMATION_REQUIRED'', estimated_cost = estimatedCost,
                 spending_limit = 5, batch_tasks = n, confirmation_needed = True\<rparr>
      else None)"
  by (simp add: check_spending_def requiresSpendingConfirmation_def SPENDING_LIMIT_def)

theorem spending_gate_witness:
  "check_spending 6 3 True = None \<and> check_spending 6 3 False \<noteq> None \<and>
   check_spending 5 3 False = None"
  using spending_gate[of 6 3] spending_gate[of 5 3] by auto











lemma cost_step_unresolved:
  "resolved_cost models (model t) = None \<Longrightarrow> cost_step models t st = st"
  by (auto simp: cost_step_def resolved_cost_def split: option.splits if_splits)











lemma fallback_for_two_images: "js_mul (round_double (5 / 100)) 2 = round_double (1 / 10)"
  by code_simp


text \<open>
  C7 (conservative cost fallback). \<open>calculateGenerationCost\<close> charges an unresolved
  model 0.05 per image (the product of the doubles 0.05 and the number of images), but
  \<open>calculateCost\<close> leaves a task with an unresolved model out of the estimate altogether:
  appending such a task changes neither the total nor the breakdown.
\<close>

theorem unresolved_task_not_counted:
  assumes "resolved_cost models (model t) = None"
  shows "calculateCost (tasks @ [t]) models = calculateCost tasks models \<and>
         calculateGenerationCost models (model t) numImages =
           js_mul (round_double (5 / 100)) numImages"
proof -
  have "fold (cost_step models) (tasks @ [t]) (0, []) = fold (cost_step models) tasks (0, [])"
    by (simp add: cost_step_unresolved[OF assms])
  moreover have "calculateGenerationCost models (model t) numImages =
      js_mul (round_double (5 / 100)) numImages"
    using assms
    by (auto simp: calculateGenerationCost_def resolved_cost_def split: option.splits if_splits)
  ultimately show ?thesis
    by (simp add: calculateCost_def)
qed

theorem unresolved_task_not_counted_witness:
  "resolved_cost example_catalog (model unlisted_task) = None \<and>
   calculateCost ([] @ [unlisted_task]) example_catalog = \<lparr>totalCost = 0, breakdown = [], currency = ''USD''\<rparr> \<and>
   calculateGenerationCost example_catalog (model unlisted_task) 2 = round_double (1 / 10)"
proof -
  have h: "resolved_cost example_catalog (model unlisted_task) = None"
    by (simp add: resolved_cost_def example_catalog_def unlisted_task_def)
  have e: "calculateCost [] example_catalog = \<lparr>totalCost = 0, breakdown = [], currency = ''USD''\<rparr>"
    by (simp add: calculateCost_def)
  note th = unresolved_task_not_counted[OF h, of "[]" 2]
  show ?thesis
    by (intro conjI h)
      (simp only: th[THEN conjunct1] e, simp only: th[THEN conjunct2] fallback_for_two_images)
qed




section \<open>Properties of response normalisation and of validation\<close>





text \<open>
  A configuration with a non-empty string \<open>id\<close>, truthy \<open>name\<close> and \<open>type\<close>, a
  positive \<open>costPerImage\<close> and parameters without an inverted numeric range is valid.
\<close>

lemma check_params_clean:
  assumes "\<forall>(pname, param) \<in> set es. param \<noteq> JNull \<and>
             \<not> (prop_of param ''type'' = Some (JStr ''number'') \<and>
                (\<exists>mn mx. prop_of param ''min'' = Some mn \<and> prop_of param ''max'' = Some mx \<and>
                   js_ge ops mn mx))"
  shows "\<exists>ws'. check_params ops es ([], ws) = Inr ([], ws')"
  using assms
proof (induction es arbitrary: ws)
  case Nil
  then show ?case by simp
next
  case (Cons a es)
  obtain pname param where a: "a = (pname, param)" by (cases a)
  from Cons.prems a have nn: "param \<noteq> JNull"
    and ok: "\<not> (prop_of param ''type'' = Some (JStr ''number'') \<and>
                (\<exists>mn mx. prop_of param ''min'' = Some mn \<and> prop_of param ''max'' = Some mx \<and>
                   js_ge ops mn mx))"
    by auto
  from nn obtain ty where ty: "get_prop param ''type'' = Inr ty"
    by (cases param) auto
  then have pty: "prop_of param ''type'' = ty" by (simp add: prop_of_def)
  have "\<exists>ws1. check_param ops (pname, param) ([], ws) = Inr ([], ws1)"
    using ok pty by (auto simp: check_param_def ty split: option.splits)
  then obtain ws1 where step: "check_param ops (pname, param) ([], ws) = Inr ([], ws1)" ..
  from Cons.prems have "\<forall>(pname, param) \<in> set es. param \<noteq> JNull \<and>
             \<not> (prop_of param ''type'' = Some (JStr ''number'') \<and>
                (\<exists>mn mx. prop_of param ''min'' = Some mn \<and> prop_of param ''max'' = Some mx \<and>
                   js_ge ops mn mx))"
    by simp
  from Cons.IH[OF this, of ws1] show ?case
    by (simp add: a step)
qed

lemma validate_accepts_priced:
  assumes "map_of kvs ''id'' = Some (JStr i)" and "i \<noteq> []"
    and "pick (map_of kvs ''name'') \<noteq> None" and "pick (map_of kvs ''type'') \<noteq> None"
    and "map_of kvs ''costPerImage'' = Some (JNum c)" and "0 < c"
    and "\<forall>(pname, param) \<in> set (case pick (map_of kvs ''parameters'') of None \<Rightarrow> [] | Some ps \<Rightarrow> entries ps).
           param \<noteq> JNull \<and>
             \<not> (prop_of param ''type'' = Some (JStr ''number'') \<and>
                (\<exists>mn mx. prop_of param ''min'' = Some mn \<and> prop_of param ''max'' = Some mx \<and>
                   js_ge ops mn mx))"
  shows "\<exists>ws. validateModelConfig ops (JObj kvs) = Inr \<lparr>valid = True, errors = [], warnings = ws\<rparr>"
proof -
  have req: "required_errors (JObj kvs) = []"
    using assms(1-6) by (simp add: required_errors_def prop_of_def)
  have cost: "cost_errors ops (JObj kvs) = []"
    using assms(5,6) by (simp add: cost_errors_def prop_of_def)
  obtain ws0 where idw: "id_warnings (Some (JStr i)) = Inr ws0"
    using assms(2) by (simp add: id_warnings_def)
  from check_params_clean[OF assms(7), of ws0] obtain ws' where
    "check_params ops (case pick (map_of kvs ''parameters'') of None \<Rightarrow> [] | Some ps \<Rightarrow> entries ps) ([], ws0)
      = Inr ([], ws')" ..
  then show ?thesis
    by (simp add: validateModelConfig_def assms(1) idw req cost prop_of_def)
qed

text \<open>
  C9 (descriptor validation). A configuration with all required fields and a
  \<open>costPerImage\<close> of 0 is reported invalid, with the field reported missing.
\<close>

theorem zero_cost_reported_missing:
  "validateModelConfig ops free_model_config =
     Inr \<lparr>valid = False, errors = [''Missing required field: costPerImage''], warnings = []\<rparr>"
  by (simp add: validateModelConfig_def free_model_config_def id_warnings_def required_errors_def
      cost_errors_def prop_of_def)

end
